theory Spec2Isabelle
  imports Complex_Main
begin

section \<open>Python and NumPy primitives used by covariancespectrum.py\<close>

text \<open>
  Energies, arrival times and counts are Python floats in the source. They are modelled
  as exact reals: every statement below is about the structure of the computation
  (which events go where, which exception is raised, which formula is evaluated), not
  about rounding.

  The exceptions the source can raise: a failed \<^verbatim>\<open>assert\<close>, NumPy's
  \<^verbatim>\<open>ValueError\<close> (a reduction over an empty array, a stack of no arrays, arrays of
  unequal length) and a missing dictionary key.
\<close>

datatype error = AssertionError | ValueError | KeyError

fun error_name :: "error \<Rightarrow> string" where
  "error_name AssertionError = ''AssertionError''"
| "error_name ValueError = ''ValueError''"
| "error_name KeyError = ''KeyError''"

text \<open>
  A Python \<^verbatim>\<open>dict\<close> keeps its keys in insertion order, and that order is the order
  of the output, so a dictionary is an association list with distinct keys.
  \<^verbatim>\<open>d[k] = v\<close> overwrites in place when the key exists and appends otherwise.
\<close>

type_synonym 'v pydict = "(real \<times> 'v) list"

fun dict_set :: "real \<Rightarrow> 'v \<Rightarrow> 'v pydict \<Rightarrow> 'v pydict" where
  "dict_set k v [] = [(k, v)]"
| "dict_set k v (kv # d) = (if fst kv = k then (fst kv, v) # d else kv # dict_set k v d)"

definition dict_get :: "'v pydict \<Rightarrow> real \<Rightarrow> error + 'v" where
  "dict_get d k = (case map_of d k of None \<Rightarrow> Inl KeyError | Some v \<Rightarrow> Inr v)"

definition dict_del :: "real \<Rightarrow> 'v pydict \<Rightarrow> error + 'v pydict" where
  "dict_del k d =
     (if k \<in> fst ` set d then Inr (filter (\<lambda>kv. fst kv \<noteq> k) d) else Inl KeyError)"

definition dict_keys :: "'v pydict \<Rightarrow> real list" where
  "dict_keys d = map fst d"

definition dict_update :: "'v pydict \<Rightarrow> 'v pydict \<Rightarrow> 'v pydict" where
  "dict_update d other = fold (\<lambda>kv acc. dict_set (fst kv) (snd kv) acc) other d"

text \<open>\<^verbatim>\<open>np.unique\<close>: the sorted distinct values. \<^verbatim>\<open>np.diff\<close>: consecutive differences.
  \<^verbatim>\<open>.min()\<close> and \<^verbatim>\<open>.max()\<close> raise \<^verbatim>\<open>ValueError\<close> on an empty array.\<close>

definition np_unique :: "real list \<Rightarrow> real list" where
  "np_unique xs = sort (remdups xs)"

definition np_diff :: "real list \<Rightarrow> real list" where
  "np_diff xs = map (\<lambda>p. snd p - fst p) (zip xs (tl xs))"

definition np_min :: "real list \<Rightarrow> error + real" where
  "np_min xs = (case xs of [] \<Rightarrow> Inl ValueError | x # ys \<Rightarrow> Inr (fold min ys x))"

definition np_max :: "real list \<Rightarrow> error + real" where
  "np_max xs = (case xs of [] \<Rightarrow> Inl ValueError | x # ys \<Rightarrow> Inr (fold max ys x))"

section \<open>The object\<close>

text \<open>An event is a row \<open>(time, energy)\<close> of the two-column input array.\<close>

type_synonym event = "real \<times> real"

text \<open>A band after validation is a pair \<open>(band[0], band[1])\<close>.\<close>

type_synonym band = "real \<times> real"

text \<open>What the caller may pass where a band is expected: a list or tuple of numbers
  (of any length), or an object of some other type.\<close>

datatype pyobj = PySeq "real list" | PyOther

text \<open>A float computed by NumPy: finite, or \<^verbatim>\<open>nan\<close>.\<close>

datatype npfloat = Fin real | NaN

record lightcurve =
  time :: "real list"
  counts :: "real list"

record covariancespectrum =
  min_energy :: real
  max_energy :: real
  min_time :: real
  max_time :: real
  ref_band_interest :: band
  band_interest :: "band list option"
  dt :: real
  event_list :: "event list"
  energy_events :: "real list pydict"
  energy_covar :: "npfloat option pydict"
  covar :: "(real \<times> npfloat) list"

section \<open>The band partitioner (method construct-energy-events)\<close>

text \<open>
  \<open>event_list_T\<close> is the transposed, energy-sorted array: row 0 the times, row 1 the
  energies. \<open>masked T p\<close> is \<^verbatim>\<open>event_list_T[0][mask]\<close> for the mask \<open>p\<close> on row 1.
\<close>

definition masked :: "real list \<times> real list \<Rightarrow> (real \<Rightarrow> bool) \<Rightarrow> real list" where
  "masked T p = map fst (filter (\<lambda>te. p (snd te)) (zip (fst T) (snd T)))"

text \<open>The body of the second loop, for one key \<open>energy\<close>.\<close>

definition cell_toa :: "real \<Rightarrow> real \<Rightarrow> real list \<times> real list \<Rightarrow> real \<Rightarrow> real list" where
  "cell_toa max_e least_count T energy =
     (if energy = max_e - least_count * 0.5
      then sort (masked T (\<lambda>e. e \<ge> energy - least_count * 0.5 \<and> e \<le> energy + least_count * 0.5))
      else sort (masked T (\<lambda>e. e \<ge> energy - least_count * 0.5 \<and> e < energy + least_count * 0.5)))"

definition construct_energy_events ::
  "covariancespectrum \<Rightarrow> real list \<times> real list \<Rightarrow> error + covariancespectrum" where
  "construct_energy_events self T =
     (case np_min (np_diff (np_unique (snd T))) of
        Inl e \<Rightarrow> Inl e
      | Inr least_count \<Rightarrow>
          let unique_energy = np_unique (snd T);
              ee0 = fold (\<lambda>i d. dict_set (unique_energy ! i + least_count * 0.5) [] d)
                      [0..<length unique_energy - 1] [];
              ee = fold (\<lambda>energy d. dict_set energy (cell_toa (max_energy self) least_count T energy) d)
                      (dict_keys ee0) ee0
          in Inr (self\<lparr>energy_events := ee\<rparr>))"

section \<open>The band merger (method update-energy-events)\<close>

text \<open>
  The state of the merge is the pair of the live mapping \<^verbatim>\<open>self.energy_events\<close> and
  the new mapping \<^verbatim>\<open>energy_events_\<close>. \<open>merge_keys\<close> is the inner loop over the
  snapshot \<^verbatim>\<open>list(self.energy_events.keys())\<close>: a key inside the band has its list
  appended to the band's entry and is deleted from the live mapping.
\<close>

type_synonym merge_state = "real list pydict \<times> real list pydict"

fun merge_keys :: "band \<Rightarrow> real \<Rightarrow> real list \<Rightarrow> merge_state \<Rightarrow> error + merge_state" where
  "merge_keys band mid_bin [] s = Inr s"
| "merge_keys band mid_bin (key # keys) s =
     (if key \<ge> fst band \<and> key \<le> snd band
      then (case dict_get (snd s) mid_bin of
              Inl e \<Rightarrow> Inl e
            | Inr acc \<Rightarrow>
               (case dict_get (fst s) key of
                  Inl e \<Rightarrow> Inl e
                | Inr v \<Rightarrow>
                   (case dict_del key (fst s) of
                      Inl e \<Rightarrow> Inl e
                    | Inr live \<Rightarrow> merge_keys band mid_bin keys (live, dict_set mid_bin (acc @ v) (snd s)))))
      else merge_keys band mid_bin keys s)"

definition merge_band :: "band \<Rightarrow> merge_state \<Rightarrow> error + merge_state" where
  "merge_band band s =
     (let mid_bin = (fst band + snd band) / 2
      in merge_keys band mid_bin (dict_keys (fst s)) (fst s, dict_set mid_bin [] (snd s)))"

fun merge_bands :: "band list \<Rightarrow> merge_state \<Rightarrow> error + merge_state" where
  "merge_bands [] s = Inr s"
| "merge_bands (band # bands) s =
     (case merge_band band s of Inl e \<Rightarrow> Inl e | Inr s' \<Rightarrow> merge_bands bands s')"

definition update_energy_events :: "covariancespectrum \<Rightarrow> error + covariancespectrum" where
  "update_energy_events self =
     (case band_interest self of
        None \<Rightarrow> Inr self
      | Some bands \<Rightarrow>
         (case merge_bands bands (energy_events self, []) of
            Inl e \<Rightarrow> Inl e
          | Inr s \<Rightarrow> Inr (self\<lparr>energy_events := dict_update (fst s) (snd s)\<rparr>)))"

section \<open>The spectrum assembler (methods init-energy-covar, construct-energy-covar)\<close>

text \<open>The placeholder \<^verbatim>\<open>[]\<close> stored by \<^verbatim>\<open>_init_energy_covar\<close> is \<open>None\<close>.\<close>

definition init_energy_covar :: "covariancespectrum \<Rightarrow> covariancespectrum" where
  "init_energy_covar self =
     self\<lparr>energy_covar :=
       (case band_interest self of
          None \<Rightarrow> fold (\<lambda>key d. dict_set key None d) (dict_keys (energy_events self)) []
        | Some bands \<Rightarrow> fold (\<lambda>band d. dict_set ((fst band + snd band) / 2) None d) bands [])\<rparr>"

text \<open>The loop that collects \<^verbatim>\<open>toa_ref\<close> for the evaluated key \<open>energy\<close>, and the
  sorted array made of it.\<close>

definition collect_toa_ref :: "band \<Rightarrow> real \<Rightarrow> real list pydict \<Rightarrow> real list" where
  "collect_toa_ref ref energy items =
     fold (\<lambda>kv toa_ref.
             if fst kv \<ge> fst ref \<and> fst kv \<le> snd ref
             then (if fst kv \<noteq> energy then toa_ref @ snd kv else toa_ref)
             else toa_ref) items []"

definition toa_ref_of :: "covariancespectrum \<Rightarrow> real \<Rightarrow> real list" where
  "toa_ref_of self energy = sort (collect_toa_ref (ref_band_interest self) energy (energy_events self))"

text \<open>
  \<^verbatim>\<open>np.cov(x, y)\<close> with its defaults: the rows are centred on their means and the
  matrix of their products is divided by \<open>N - 1\<close>. With \<open>N \<le> 1\<close> NumPy divides by
  zero and every entry is \<^verbatim>\<open>nan\<close>. Arrays of unequal length cannot be stacked.
\<close>

definition mean :: "real list \<Rightarrow> real" where
  "mean xs = sum_list xs / real (length xs)"

definition dot :: "real list \<Rightarrow> real list \<Rightarrow> real" where
  "dot xs ys = sum_list (map (\<lambda>p. fst p * snd p) (zip xs ys))"

definition np_cov :: "real list \<Rightarrow> real list \<Rightarrow> error + npfloat list list" where
  "np_cov x y =
     (if length x \<noteq> length y then Inl ValueError
      else let n = length x;
               X = [map (\<lambda>v. v - mean x) x, map (\<lambda>v. v - mean y) y]
           in Inr (map (\<lambda>r. map (\<lambda>s. if n \<le> 1 then NaN else Fin (dot r s / (real n - 1))) X) X))"

definition compute_covariance :: "lightcurve \<Rightarrow> lightcurve \<Rightarrow> error + npfloat" where
  "compute_covariance lc1 lc2 =
     (case np_cov (counts lc1) (counts lc2) of Inl e \<Rightarrow> Inl e | Inr c \<Rightarrow> Inr (c ! 0 ! 1))"

text \<open>\<^verbatim>\<open>np.vstack\<close> of the items: one row per key; no rows, or a row still holding the
  placeholder, cannot be stacked.\<close>

definition np_vstack :: "npfloat option pydict \<Rightarrow> error + (real \<times> npfloat) list" where
  "np_vstack items =
     (case those (map (\<lambda>kv. map_option (\<lambda>c. (fst kv, c)) (snd kv)) items) of
        None \<Rightarrow> Inl ValueError
      | Some rows \<Rightarrow> if rows = [] then Inl ValueError else Inr rows)"

text \<open>
  \<^verbatim>\<open>Lightcurve.make_lightcurve(toa, dt, tstart=..., tseg=...)\<close> is not part of this
  file of the repository: it is the parameter \<open>mk\<close>, applied to the arrival times, the bin
  width, the start time and the segment length.
\<close>

type_synonym series_builder = "real list \<Rightarrow> real \<Rightarrow> real \<Rightarrow> real \<Rightarrow> lightcurve"

fun covar_loop :: "series_builder \<Rightarrow> real list \<Rightarrow> covariancespectrum \<Rightarrow> error + covariancespectrum" where
  "covar_loop mk [] self = Inr self"
| "covar_loop mk (energy # rest) self =
     (case dict_get (energy_events self) energy of
        Inl e \<Rightarrow> Inl e
      | Inr toa \<Rightarrow>
         let lc = mk toa (dt self) (min_time self) (max_time self - min_time self);
             lc_ref = mk (toa_ref_of self energy) (dt self) (min_time self) (max_time self - min_time self)
         in if length (time lc) \<noteq> length (time lc_ref) then Inl AssertionError
            else (case compute_covariance lc lc_ref of
                    Inl e \<Rightarrow> Inl e
                  | Inr c \<Rightarrow>
                      covar_loop mk rest (self\<lparr>energy_covar := dict_set energy (Some c) (energy_covar self)\<rparr>)))"

definition construct_energy_covar :: "series_builder \<Rightarrow> covariancespectrum \<Rightarrow> error + covariancespectrum" where
  "construct_energy_covar mk self0 =
     (let self = init_energy_covar self0
      in case covar_loop mk (dict_keys (energy_covar self)) self of
           Inl e \<Rightarrow> Inl e
         | Inr self' \<Rightarrow>
            (case np_vstack (energy_covar self') of
               Inl e \<Rightarrow> Inl e
             | Inr rows \<Rightarrow> Inr (self'\<lparr>covar := rows\<rparr>)))"

section \<open>The constructor\<close>

text \<open>The two assertions on a band: its type is list or tuple, and its length is 2.\<close>

fun as_band :: "pyobj \<Rightarrow> error + band" where
  "as_band PyOther = Inl AssertionError"
| "as_band (PySeq xs) = (if length xs = 2 then Inr (xs ! 0, xs ! 1) else Inl AssertionError)"

fun check_bands :: "pyobj list \<Rightarrow> error + band list" where
  "check_bands [] = Inr []"
| "check_bands (element # rest) =
     (case as_band element of
        Inl e \<Rightarrow> Inl e
      | Inr b \<Rightarrow> (case check_bands rest of Inl e \<Rightarrow> Inl e | Inr bs \<Rightarrow> Inr (b # bs)))"

text \<open>Everything after the validation: the rows sorted by energy (\<^verbatim>\<open>argsort\<close>; the
  order among equal energies does not matter, every cell is sorted again), transposed, and
  the three steps.\<close>

definition run_pipeline :: "series_builder \<Rightarrow> covariancespectrum \<Rightarrow> error + covariancespectrum" where
  "run_pipeline mk self =
     (let rows = sort_key snd (event_list self);
          event_list_T = (map fst rows, map snd rows)
      in case construct_energy_events self event_list_T of
           Inl e \<Rightarrow> Inl e
         | Inr self1 \<Rightarrow>
            (case update_energy_events self1 of
               Inl e \<Rightarrow> Inl e
             | Inr self2 \<Rightarrow> construct_energy_covar mk self2))"

definition Covariancespectrum ::
  "series_builder \<Rightarrow> event list \<Rightarrow> real \<Rightarrow> pyobj list option \<Rightarrow> pyobj option
     \<Rightarrow> error + covariancespectrum" where
  "Covariancespectrum mk events bin_width bands ref =
     (case np_min (map snd events) of Inl e \<Rightarrow> Inl e | Inr min_e \<Rightarrow>
     (case np_max (map snd events) of Inl e \<Rightarrow> Inl e | Inr max_e \<Rightarrow>
     (case np_min (map fst events) of Inl e \<Rightarrow> Inl e | Inr min_t \<Rightarrow>
     (case np_max (map fst events) of Inl e \<Rightarrow> Inl e | Inr max_t \<Rightarrow>
     (case as_band (case ref of None \<Rightarrow> PySeq [min_e, max_e] | Some r \<Rightarrow> r) of
        Inl e \<Rightarrow> Inl e
      | Inr ref_band \<Rightarrow>
     (case (case bands of
              None \<Rightarrow> Inr None
            | Some bs \<Rightarrow> (case check_bands bs of Inl e \<Rightarrow> Inl e | Inr bs' \<Rightarrow> Inr (Some bs'))) of
        Inl e \<Rightarrow> Inl e
      | Inr bands' \<Rightarrow>
          run_pipeline mk
            \<lparr>min_energy = min_e, max_energy = max_e, min_time = min_t, max_time = max_t,
             ref_band_interest = ref_band, band_interest = bands', dt = bin_width,
             event_list = events, energy_events = [], energy_covar = [], covar = []\<rparr>))))))"

section \<open>Notions used to state the properties\<close>

text \<open>The test of the inner loop of the merger, the key of a band, and the concatenated
  lists of the cells whose key satisfies a predicate, in the order of the mapping.\<close>

definition in_band :: "band \<Rightarrow> real \<Rightarrow> bool" where
  "in_band band key = (key \<ge> fst band \<and> key \<le> snd band)"

definition mid_bin :: "band \<Rightarrow> real" where
  "mid_bin band = (fst band + snd band) / 2"

definition cells_in :: "(real \<Rightarrow> bool) \<Rightarrow> real list pydict \<Rightarrow> real list" where
  "cells_in p d = concat (map snd (filter (\<lambda>kv. p (fst kv)) d))"

text \<open>What one band does to the state of the merge, in closed form, and the first band of
  the supplied list that contains a key.\<close>

definition band_step :: "band \<Rightarrow> merge_state \<Rightarrow> merge_state" where
  "band_step band s =
     (filter (\<lambda>kv. \<not> in_band band (fst kv)) (fst s),
      dict_set (mid_bin band) (cells_in (in_band band) (fst s)) (snd s))"

definition first_band :: "band list \<Rightarrow> real \<Rightarrow> band option" where
  "first_band bands key = find (\<lambda>b. in_band b key) bands"

text \<open>The mapping the partitioner builds, in closed form: one cell per unique energy but
  the last.\<close>

definition fine_cells :: "real \<Rightarrow> real list \<times> real list \<Rightarrow> real list pydict" where
  "fine_cells max_e T =
     (let us = np_unique (snd T); lc = Min (set (np_diff us))
      in map (\<lambda>u. (u + lc * 0.5, cell_toa max_e lc T (u + lc * 0.5))) (butlast us))"

text \<open>A band argument that passes both assertions, the pair it stands for (only used for
  arguments that pass), and the object the constructor hands to the three steps.\<close>

fun is_pair :: "pyobj \<Rightarrow> bool" where
  "is_pair (PySeq xs) = (length xs = 2)"
| "is_pair PyOther = False"

fun pair_of :: "pyobj \<Rightarrow> band" where
  "pair_of (PySeq xs) = (xs ! 0, xs ! 1)"
| "pair_of PyOther = (0, 0)"

definition ref_ok :: "pyobj option \<Rightarrow> bool" where
  "ref_ok ref = (case ref of None \<Rightarrow> True | Some r \<Rightarrow> is_pair r)"

definition bands_ok :: "pyobj list option \<Rightarrow> bool" where
  "bands_ok bands = (case bands of None \<Rightarrow> True | Some bs \<Rightarrow> list_all is_pair bs)"

definition initial_object ::
  "event list \<Rightarrow> real \<Rightarrow> pyobj list option \<Rightarrow> pyobj option \<Rightarrow> covariancespectrum" where
  "initial_object events bin_width bands ref =
     \<lparr>min_energy = Min (set (map snd events)), max_energy = Max (set (map snd events)),
      min_time = Min (set (map fst events)), max_time = Max (set (map fst events)),
      ref_band_interest =
        (case ref of
           None \<Rightarrow> (Min (set (map snd events)), Max (set (map snd events)))
         | Some r \<Rightarrow> pair_of r),
      band_interest = map_option (map pair_of) bands, dt = bin_width,
      event_list = events, energy_events = [], energy_covar = [], covar = []\<rparr>"

text \<open>The sample covariance of two series of length \<open>N\<close>: the sum of the products of the
  deviations from the means, divided by \<open>N - 1\<close>; not a number when \<open>N - 1\<close> is not positive.\<close>

definition sample_covariance :: "real list \<Rightarrow> real list \<Rightarrow> npfloat" where
  "sample_covariance x y =
     (if length x \<le> 1 then NaN
      else Fin ((\<Sum>i<length x. (x ! i - mean x) * (y ! i - mean y)) / (real (length x) - 1)))"

text \<open>The covariance the assembler stores for the key \<open>energy\<close> whose list is \<open>toa\<close>, for a
  builder whose series have equal lengths: the sample covariance of the counts of the
  band's light curve and of its reference light curve.\<close>

definition band_covariance :: "series_builder \<Rightarrow> covariancespectrum \<Rightarrow> real list \<Rightarrow> real \<Rightarrow> npfloat" where
  "band_covariance mk self toa energy =
     sample_covariance
       (counts (mk toa (dt self) (min_time self) (max_time self - min_time self)))
       (counts (mk (toa_ref_of self energy) (dt self) (min_time self) (max_time self - min_time self)))"

text \<open>The cells a later band \<open>b2\<close> merges when an earlier band \<open>b1\<close> and the bands
  \<open>others\<close> have been processed before it: those whose key lies in \<open>b2\<close>, not in \<open>b1\<close>
  and in none of \<open>others\<close>.\<close>

definition later_band_cells :: "band list \<Rightarrow> band \<Rightarrow> band \<Rightarrow> real list pydict \<Rightarrow> real list" where
  "later_band_cells others b1 b2 ee =
     cells_in (\<lambda>k. in_band b2 k \<and> \<not> in_band b1 k \<and> first_band others k = None) ee"

text \<open>
  Modelled from the spec: \<^verbatim>\<open>Lightcurve.make_lightcurve\<close> is defined in another file of
  the repository (stingray/lightcurve.py). The specification describes it as the series
  builder: from the event times, a bin width, a start time and a duration it returns a
  uniformly spaced count series covering \<open>[start, start + duration)\<close> with bins of width
  \<open>dt\<close>. No general theorem below depends on this definition: the theorems take the builder
  as the parameter \<open>mk\<close>, and this one only instantiates it in closed examples.
\<close>

definition make_lightcurve :: series_builder where
  "make_lightcurve toa d tstart tseg =
     (let n = nat \<lfloor>tseg / d\<rfloor>
      in \<lparr>time = map (\<lambda>i. tstart + (real i + 0.5) * d) [0..<n],
          counts = map (\<lambda>i. real (length (filter (\<lambda>t. tstart + real i * d \<le> t \<and> t < tstart + (real i + 1) * d) toa)))
                     [0..<n]\<rparr>)"

text \<open>Objects for the closed examples: the five events of the end-to-end scenario, and an
  object whose three cells are about to be merged.\<close>

definition example_events :: "event list" where
  "example_events = [(0, 1), (1/2, 1), (1, 3), (3/2, 3), (2, 5)]"

definition three_cells :: "band list \<Rightarrow> covariancespectrum" where
  "three_cells bands =
     \<lparr>min_energy = 1, max_energy = 4, min_time = 0, max_time = 2,
      ref_band_interest = (1, 4), band_interest = Some bands, dt = 1,
      event_list = [(0, 1), (1/2, 2), (1, 3), (3/2, 4), (2, 4)],
      energy_events = [(3/2, [0]), (5/2, [1/2]), (7/2, [1, 3/2, 2])],
      energy_covar = [], covar = []\<rparr>"

section \<open>Dictionaries\<close>

lemma dict_set_append: "k \<notin> fst ` set d \<Longrightarrow> dict_set k v d = d @ [(k, v)]"
  by (induction d) auto

lemma dict_set_overwrite: "dict_set k v (dict_set k w d) = dict_set k v d"
  by (induction d) auto

lemma dict_keys_dict_set:
  "dict_keys (dict_set k v d) = (if k \<in> set (dict_keys d) then dict_keys d else dict_keys d @ [k])"
  by (induction d) (auto simp: dict_keys_def)

lemma map_of_dict_set: "map_of (dict_set k v d) = (map_of d)(k \<mapsto> v)"
  by (induction d) (auto simp: fun_eq_iff)

lemma dict_get_dict_set: "dict_get (dict_set k v d) k' = (if k' = k then Inr v else dict_get d k')"
  by (simp add: dict_get_def map_of_dict_set)

lemma map_of_mid: "k \<notin> fst ` set pre \<Longrightarrow> map_of (pre @ (k, v) # suf) k = Some v"
  by (induction pre) auto

lemma filter_del: "k \<notin> fst ` set d \<Longrightarrow> filter (\<lambda>kv. fst kv \<noteq> k) d = d"
  by (induction d) auto

lemma dict_set_same: "map_of d k = Some v \<Longrightarrow> dict_set k v d = d"
  by (induction d) (auto split: if_splits)

lemma dict_del_mid:
  "distinct (map fst (pre @ (k, v) # suf)) \<Longrightarrow> dict_del k (pre @ (k, v) # suf) = Inr (pre @ suf)"
  by (auto simp: dict_del_def filter_del)

lemma dict_get_mid:
  "distinct (map fst (pre @ (k, v) # suf)) \<Longrightarrow> dict_get (pre @ (k, v) # suf) k = Inr v"
proof -
  assume "distinct (map fst (pre @ (k, v) # suf))"
  then have "k \<notin> fst ` set pre" by auto
  then have "map_of (pre @ (k, v) # suf) k = Some v" by (rule map_of_mid)
  then show ?thesis
    unfolding dict_get_def by (simp only: option.case)
qed

lemma merge_keys_eq:
  "distinct (map fst (pre @ suf)) \<Longrightarrow> dict_get acc m = Inr a \<Longrightarrow>
   merge_keys band m (map fst suf) (pre @ suf, acc) =
     Inr (pre @ filter (\<lambda>kv. \<not> in_band band (fst kv)) suf,
          dict_set m (a @ cells_in (in_band band) suf) acc)"
proof (induction suf arbitrary: pre acc a)
  case Nil
  then have "map_of acc m = Some a"
    by (auto simp: dict_get_def split: option.splits)
  then show ?case
    by (simp add: cells_in_def dict_set_same)
next
  case (Cons kv suf)
  obtain k v where kv: "kv = (k, v)" by (cases kv)
  show ?case
  proof (cases "in_band band k")
    case True
    have d: "distinct (map fst (pre @ suf))"
      using Cons.prems(1) by (simp add: kv)
    have g: "dict_get (dict_set m (a @ v) acc) m = Inr (a @ v)"
      by (simp add: dict_get_dict_set)
    have "merge_keys band m (map fst (kv # suf)) (pre @ kv # suf, acc) =
            merge_keys band m (map fst suf) (pre @ suf, dict_set m (a @ v) acc)"
      using True Cons.prems dict_del_mid[of pre k v suf] dict_get_mid[of pre k v suf]
      by (simp add: kv in_band_def)
    also have "\<dots> = Inr (pre @ filter (\<lambda>kv. \<not> in_band band (fst kv)) suf,
          dict_set m ((a @ v) @ cells_in (in_band band) suf) (dict_set m (a @ v) acc))"
      by (rule Cons.IH[OF d g])
    finally show ?thesis
      using True by (simp add: kv cells_in_def dict_set_overwrite)
  next
    case False
    have d: "distinct (map fst ((pre @ [kv]) @ suf))"
      using Cons.prems(1) by simp
    have "merge_keys band m (map fst (kv # suf)) (pre @ kv # suf, acc) =
            merge_keys band m (map fst suf) ((pre @ [kv]) @ suf, acc)"
      using False by (auto simp: kv in_band_def)
    also have "\<dots> = Inr ((pre @ [kv]) @ filter (\<lambda>kv. \<not> in_band band (fst kv)) suf,
          dict_set m (a @ cells_in (in_band band) suf) acc)"
      by (rule Cons.IH[OF d Cons.prems(2)])
    finally show ?thesis
      using False by (simp add: kv cells_in_def)
  qed
qed

section \<open>The merger in closed form\<close>

lemma merge_band_eq:
  assumes "distinct (dict_keys (fst s))"
  shows "merge_band band s = Inr (band_step band s)"
proof -
  have g: "dict_get (dict_set (mid_bin band) [] (snd s)) (mid_bin band) = Inr []"
    by (simp add: dict_get_dict_set)
  have d: "distinct (map fst ([] @ fst s))"
    using assms by (simp add: dict_keys_def)
  show ?thesis
    using merge_keys_eq[OF d g, of band]
    by (simp add: merge_band_def band_step_def mid_bin_def dict_keys_def dict_set_overwrite Let_def)
qed

lemma distinct_band_step: "distinct (dict_keys (fst s)) \<Longrightarrow> distinct (dict_keys (fst (band_step band s)))"
  by (simp add: band_step_def dict_keys_def distinct_map_filter)

lemma merge_bands_eq:
  "distinct (dict_keys (fst s)) \<Longrightarrow> merge_bands bands s = Inr (fold band_step bands s)"
  by (induction bands arbitrary: s) (simp_all add: merge_band_eq distinct_band_step)

lemma cells_in_filter:
  "cells_in p (filter (\<lambda>kv. q (fst kv)) d) = cells_in (\<lambda>k. p k \<and> q k) d"
  by (simp add: cells_in_def conj_commute)

lemma first_band_in: "first_band bands k = Some b \<Longrightarrow> b \<in> set bands"
  by (auto simp: first_band_def find_Some_iff)

lemma first_band_head:
  "b \<notin> set bands \<Longrightarrow> (\<lambda>k. first_band (b # bands) k = Some b) = in_band b"
  by (auto simp: fun_eq_iff first_band_def dest: first_band_in[unfolded first_band_def])

lemma first_band_tail:
  "b \<noteq> b' \<Longrightarrow>
   (\<lambda>k. first_band (b # bands) k = Some b') = (\<lambda>k. first_band bands k = Some b' \<and> \<not> in_band b k)"
  by (auto simp: fun_eq_iff first_band_def)

lemma fold_band_step_distinct:
  "distinct (map mid_bin bands) \<Longrightarrow> mid_bin ` set bands \<inter> fst ` set acc = {} \<Longrightarrow>
   fold band_step bands (ee, acc) =
     (filter (\<lambda>kv. first_band bands (fst kv) = None) ee,
      acc @ map (\<lambda>b. (mid_bin b, cells_in (\<lambda>k. first_band bands k = Some b) ee)) bands)"
proof (induction bands arbitrary: ee acc)
  case Nil
  show ?case by (simp add: first_band_def)
next
  case (Cons b bands)
  let ?ee = "filter (\<lambda>kv. \<not> in_band b (fst kv)) ee"
  let ?acc = "acc @ [(mid_bin b, cells_in (in_band b) ee)]"
  have nb: "b \<notin> set bands"
    using Cons.prems(1) by auto
  have step: "band_step b (ee, acc) = (?ee, ?acc)"
    using Cons.prems(2) by (simp add: band_step_def dict_set_append)
  have d: "distinct (map mid_bin bands)"
    using Cons.prems(1) by simp
  have i: "mid_bin ` set bands \<inter> fst ` set ?acc = {}"
    using Cons.prems by auto
  have rest: "filter (\<lambda>kv. first_band bands (fst kv) = None) ?ee
                = filter (\<lambda>kv. first_band (b # bands) (fst kv) = None) ee"
    by (auto simp: first_band_def intro: filter_cong)
  have tl: "map (\<lambda>b'. (mid_bin b', cells_in (\<lambda>k. first_band bands k = Some b') ?ee)) bands
              = map (\<lambda>b'. (mid_bin b', cells_in (\<lambda>k. first_band (b # bands) k = Some b') ee)) bands"
  proof (rule map_cong[OF refl])
    fix b' assume "b' \<in> set bands"
    then have "b \<noteq> b'" using nb by auto
    then show "(mid_bin b', cells_in (\<lambda>k. first_band bands k = Some b') ?ee)
                 = (mid_bin b', cells_in (\<lambda>k. first_band (b # bands) k = Some b') ee)"
      by (simp add: cells_in_filter[of _ "\<lambda>k. \<not> in_band b k"] first_band_tail)
  qed
  have "fold band_step (b # bands) (ee, acc) = fold band_step bands (?ee, ?acc)"
    by (simp add: step)
  also have "\<dots> = (filter (\<lambda>kv. first_band bands (fst kv) = None) ?ee,
      ?acc @ map (\<lambda>b'. (mid_bin b', cells_in (\<lambda>k. first_band bands k = Some b') ?ee)) bands)"
    by (rule Cons.IH[OF d i])
  finally show ?case
    using rest by (simp add: tl first_band_head[OF nb])
qed

lemma two_bands_same_mid:
  assumes "distinct (dict_keys ee)" "mid_bin b1 = mid_bin b2"
  shows "merge_bands [b1, b2] (ee, acc) =
           Inr (filter (\<lambda>kv. \<not> in_band b1 (fst kv) \<and> \<not> in_band b2 (fst kv)) ee,
                dict_set (mid_bin b2) (cells_in (\<lambda>k. in_band b2 k \<and> \<not> in_band b1 k) ee) acc)"
proof -
  have "merge_bands [b1, b2] (ee, acc) = Inr (fold band_step [b1, b2] (ee, acc))"
    by (rule merge_bands_eq) (simp add: assms)
  then show ?thesis
    using assms(2)
    by (simp add: band_step_def dict_set_overwrite cells_in_filter[of _ "\<lambda>k. \<not> in_band b1 k"])
qed

section \<open>The partitioner in closed form\<close>

lemma sorted_np_unique: "sorted (np_unique xs)"
  by (simp add: np_unique_def)
lemma distinct_np_unique: "distinct (np_unique xs)"
  by (simp add: np_unique_def)
lemma set_np_unique: "set (np_unique xs) = set xs"
  by (simp add: np_unique_def)

lemma length_np_unique: "length (np_unique xs) = card (set xs)"
  by (simp add: np_unique_def length_remdups_card_conv)

lemma length_np_diff: "length (np_diff xs) = length xs - 1"
  by (simp add: np_diff_def)

lemma np_min_eq: "xs \<noteq> [] \<Longrightarrow> np_min xs = Inr (Min (set xs))"
  using Min.set_eq_fold[of "hd xs" "tl xs"] by (cases xs) (simp_all add: np_min_def)

lemma np_max_eq: "xs \<noteq> [] \<Longrightarrow> np_max xs = Inr (Max (set xs))"
  using Max.set_eq_fold[of "hd xs" "tl xs"] by (cases xs) (simp_all add: np_max_def)

lemma np_min_empty: "np_min [] = Inl ValueError"
  by (simp add: np_min_def)

lemma fold_dict_set_new:
  "distinct (map f xs) \<Longrightarrow> f ` set xs \<inter> fst ` set d = {} \<Longrightarrow>
   fold (\<lambda>i d. dict_set (f i) (g i) d) xs d = d @ map (\<lambda>i. (f i, g i)) xs"
proof (induction xs arbitrary: d)
  case Nil
  show ?case by simp
next
  case (Cons x xs)
  have "dict_set (f x) (g x) d = d @ [(f x, g x)]"
    using Cons.prems(2) by (intro dict_set_append) auto
  moreover have "f ` set xs \<inter> fst ` set (d @ [(f x, g x)]) = {}"
    using Cons.prems by auto
  ultimately show ?case
    using Cons.IH[of "d @ [(f x, g x)]"] Cons.prems(1) by simp
qed

lemma dict_set_mid:
  "k \<notin> fst ` set pre \<Longrightarrow> dict_set k v (pre @ (k, w) # suf) = pre @ (k, v) # suf"
  by (induction pre) auto

lemma fold_dict_set_existing:
  "distinct (map fst (pre @ suf)) \<Longrightarrow>
   fold (\<lambda>k d. dict_set k (g k) d) (map fst suf) (pre @ suf) = pre @ map (\<lambda>kv. (fst kv, g (fst kv))) suf"
proof (induction suf arbitrary: pre)
  case Nil
  show ?case by simp
next
  case (Cons kv suf)
  obtain k w where kv: "kv = (k, w)" by (cases kv)
  have "k \<notin> fst ` set pre" using Cons.prems by (auto simp: kv)
  then have "dict_set k (g k) (pre @ kv # suf) = (pre @ [(k, g k)]) @ suf"
    by (simp add: kv dict_set_mid)
  moreover have "distinct (map fst ((pre @ [(k, g k)]) @ suf))"
    using Cons.prems by (simp add: kv)
  ultimately show ?case
    using Cons.IH[of "pre @ [(k, g k)]"] by (simp add: kv)
qed

lemma map_nth_upt_take: "k \<le> length xs \<Longrightarrow> map (\<lambda>i. f (xs ! i)) [0..<k] = map f (take k xs)"
  by (simp add: list_eq_iff_nth_eq)

lemma construct_energy_events_eq:
  "construct_energy_events self T =
     (if card (set (snd T)) < 2 then Inl ValueError
      else Inr (self\<lparr>energy_events := fine_cells (max_energy self) T\<rparr>))"
proof (cases "card (set (snd T)) < 2")
  case True
  then have "np_diff (np_unique (snd T)) = []"
    using length_np_diff[of "np_unique (snd T)"] by (simp add: length_np_unique)
  then show ?thesis
    using True by (simp add: construct_energy_events_def np_min_empty)
next
  case False
  define us where "us = np_unique (snd T)"
  define lc where "lc = Min (set (np_diff us))"
  have ne: "np_diff us \<noteq> []"
    using False length_np_diff[of us] by (auto simp: us_def length_np_unique)
  have lcm: "np_min (np_diff us) = Inr lc"
    by (simp add: np_min_eq[OF ne] lc_def)
  have keys: "map (\<lambda>i. us ! i + lc * 0.5) [0..<length us - 1] = map (\<lambda>u. u + lc * 0.5) (butlast us)"
    using map_nth_upt_take[of "length us - 1" us "\<lambda>u. u + lc * 0.5"] by (simp add: butlast_conv_take)
  have dk: "distinct (map (\<lambda>u. u + lc * 0.5) (butlast us))"
    using distinct_np_unique[of "snd T"] by (simp add: us_def distinct_map distinct_butlast inj_on_def)
  define ee0 where "ee0 = fold (\<lambda>i d. dict_set (us ! i + lc * 0.5) ([]::real list) d) [0..<length us - 1] []"
  have dk': "distinct (map (\<lambda>i. us ! i + lc * 0.5) [0..<length us - 1])"
    by (simp only: keys dk)
  have "ee0 = map (\<lambda>i. (us ! i + lc * 0.5, [])) [0..<length us - 1]"
    unfolding ee0_def
    using fold_dict_set_new[OF dk', of "[]" "\<lambda>i. []"] by simp
  then have ee0: "ee0 = map (\<lambda>u. (u + lc * 0.5, [])) (butlast us)"
    using map_nth_upt_take[of "length us - 1" us "\<lambda>u. (u + lc * 0.5, [])"]
    by (simp add: butlast_conv_take)
  have d0: "distinct (map fst ([] @ ee0))"
    using dk by (simp add: ee0 comp_def)
  have ee: "fold (\<lambda>energy d. dict_set energy (cell_toa (max_energy self) lc T energy) d) (dict_keys ee0) ee0
              = map (\<lambda>u. (u + lc * 0.5, cell_toa (max_energy self) lc T (u + lc * 0.5))) (butlast us)"
    using fold_dict_set_existing[OF d0, of "cell_toa (max_energy self) lc T"]
    by (simp add: dict_keys_def ee0 comp_def)
  show ?thesis
    using False ee[unfolded ee0_def]
    by (simp add: construct_energy_events_def fine_cells_def Let_def us_def[symmetric]
        lc_def[symmetric] lcm)
qed

lemma np_diff_Cons2: "np_diff (a # b # rest) = (b - a) # np_diff (b # rest)"
  by (simp add: np_diff_def)

lemma np_diff_successor:
  "sorted us \<Longrightarrow> distinct us \<Longrightarrow> u \<in> set (butlast us) \<Longrightarrow>
   \<exists>d \<in> set (np_diff us). u + d \<in> set us"
proof (induction us rule: induct_list012)
  case 1
  then show ?case by simp
next
  case (2 a)
  then show ?case by simp
next
  case (3 a b rest)
  show ?case
  proof (cases "u = a")
    case True
    then show ?thesis by (simp add: np_diff_Cons2)
  next
    case False
    then have "u \<in> set (butlast (b # rest))" using 3 by simp
    moreover have "sorted (b # rest)" "distinct (b # rest)" using 3 by simp_all
    ultimately obtain d where "d \<in> set (np_diff (b # rest))" "u + d \<in> set (b # rest)"
      using 3 by blast
    then show ?thesis by (auto simp: np_diff_Cons2)
  qed
qed

lemma np_diff_positive:
  "sorted us \<Longrightarrow> distinct us \<Longrightarrow> d \<in> set (np_diff us) \<Longrightarrow> 0 < d"
proof (induction us rule: induct_list012)
  case 1
  then show ?case by (simp add: np_diff_def)
next
  case (2 a)
  then show ?case by (simp add: np_diff_def)
next
  case (3 a b rest)
  then show ?case by (auto simp: np_diff_Cons2 less_le)
qed

lemma least_count_facts:
  assumes "2 \<le> card (set es)"
  defines "us \<equiv> np_unique es"
  defines "lc \<equiv> Min (set (np_diff us))"
  shows "0 < lc" and "\<And>u. u \<in> set (butlast us) \<Longrightarrow> Min (set es) \<le> u \<and> u + lc \<le> Max (set es)"
proof -
  have ne: "set (np_diff us) \<noteq> {}"
    using assms(1) length_np_diff[of us] by (auto simp: us_def length_np_unique simp flip: length_0_conv)
  have so: "sorted us" "distinct us"
    by (simp_all add: us_def sorted_np_unique distinct_np_unique)
  have "lc \<in> set (np_diff us)"
    unfolding lc_def using ne by (intro Min_in) simp_all
  then show "0 < lc" using np_diff_positive[OF so] by blast
  fix u assume u: "u \<in> set (butlast us)"
  then have "u \<in> set es"
    using in_set_butlastD[of u us] by (simp add: us_def set_np_unique)
  then have lo: "Min (set es) \<le> u" by simp
  obtain d where d: "d \<in> set (np_diff us)" "u + d \<in> set us"
    using np_diff_successor[OF so u] by blast
  have "lc \<le> d" unfolding lc_def using d(1) by simp
  moreover have "u + d \<le> Max (set es)"
    using d(2) by (simp add: us_def set_np_unique)
  ultimately show "Min (set es) \<le> u \<and> u + lc \<le> Max (set es)"
    using lo by linarith
qed

lemma fine_cells_keys:
  "dict_keys (fine_cells max_e T) =
     map (\<lambda>u. u + Min (set (np_diff (np_unique (snd T)))) * 0.5) (butlast (np_unique (snd T)))"
  by (simp add: fine_cells_def dict_keys_def Let_def comp_def)

lemma distinct_fine_cells: "distinct (dict_keys (fine_cells max_e T))"
  using distinct_np_unique[of "snd T"]
  by (simp add: fine_cells_keys distinct_map distinct_butlast inj_on_def)

lemma fine_cells_in_range:
  assumes "2 \<le> card (set (snd T))" "kv \<in> set (fine_cells max_e T)"
  shows "in_band (Min (set (snd T)), Max (set (snd T))) (fst kv)"
proof -
  obtain u where u: "u \<in> set (butlast (np_unique (snd T)))"
    and k: "fst kv = u + Min (set (np_diff (np_unique (snd T)))) * 0.5"
    using assms(2) by (auto simp: fine_cells_def Let_def)
  show ?thesis
    using least_count_facts[OF assms(1)] u k by (fastforce simp: in_band_def)
qed

lemma dict_update_empty: "dict_update [] [(k, v)] = [(k, v)]"
  by (simp add: dict_update_def)

section \<open>The constructor in closed form\<close>

lemma as_band_eq: "as_band x = (if is_pair x then Inr (pair_of x) else Inl AssertionError)"
  by (cases x) simp_all

lemma check_bands_eq:
  "check_bands bs = (if list_all is_pair bs then Inr (map pair_of bs) else Inl AssertionError)"
  by (induction bs) (simp_all add: as_band_eq)

lemma Covariancespectrum_eq:
  assumes "events \<noteq> []"
  shows "Covariancespectrum mk events bw bands ref =
           (if ref_ok ref \<and> bands_ok bands then run_pipeline mk (initial_object events bw bands ref)
            else Inl AssertionError)"
proof -
  have ne: "map snd events \<noteq> []" "map fst events \<noteq> []" using assms by simp_all
  show ?thesis
    unfolding Covariancespectrum_def np_min_eq[OF ne(1)] np_max_eq[OF ne(1)]
      np_min_eq[OF ne(2)] np_max_eq[OF ne(2)]
    by (cases ref; cases bands)
       (simp_all add: as_band_eq check_bands_eq ref_ok_def bands_ok_def initial_object_def)
qed

lemma Covariancespectrum_empty: "Covariancespectrum mk [] bw bands ref = Inl ValueError"
  by (simp add: Covariancespectrum_def np_min_def)

lemma run_pipeline_few:
  assumes "card (set (map snd (event_list self))) < 2"
  shows "run_pipeline mk self = Inl ValueError"
proof -
  have "set (map snd (sort_key snd (event_list self))) = set (map snd (event_list self))"
    by simp
  then show ?thesis
    using assms by (simp add: run_pipeline_def construct_energy_events_eq Let_def del: set_map)
qed

section \<open>The assembler\<close>

lemma collect_fold:
  "fold (\<lambda>kv toa_ref.
             if fst kv \<ge> fst ref \<and> fst kv \<le> snd ref
             then (if fst kv \<noteq> energy then toa_ref @ snd kv else toa_ref)
             else toa_ref) items a
   = a @ concat (map snd (filter (\<lambda>kv. in_band ref (fst kv) \<and> fst kv \<noteq> energy) items))"
  by (induction items arbitrary: a) (auto simp: in_band_def)

lemma dot_sum: "length xs = length ys \<Longrightarrow> dot xs ys = (\<Sum>i<length xs. xs ! i * ys ! i)"
proof -
  assume l: "length xs = length ys"
  let ?ps = "map (\<lambda>p. fst p * snd p) (zip xs ys)"
  have "dot xs ys = (\<Sum>i = 0..<length ?ps. ?ps ! i)"
    unfolding dot_def by (rule sum_list_sum_nth)
  also have "\<dots> = (\<Sum>i<length xs. xs ! i * ys ! i)"
    using l by (intro sum.cong) (auto simp: atLeast0LessThan)
  finally show ?thesis .
qed

lemma covar_loop_no_assert:
  assumes "\<And>a b d ts tg. length (time (mk a d ts tg)) = length (time (mk b d ts tg))"
  shows "covar_loop mk keys self \<noteq> Inl AssertionError"
proof (induction keys arbitrary: self)
  case Nil
  show ?case by simp
next
  case (Cons energy rest)
  have eq: "length (time (mk toa (dt self) (min_time self) (max_time self - min_time self)))
        = length (time (mk (toa_ref_of self energy) (dt self) (min_time self) (max_time self - min_time self)))" for toa
    by (rule assms)
  show ?case
  proof (cases "dict_get (energy_events self) energy")
    case (Inl e)
    then show ?thesis by (cases e) (simp_all add: dict_get_def split: option.splits)
  next
    case (Inr toa)
    show ?thesis
    proof (cases "compute_covariance (mk toa (dt self) (min_time self) (max_time self - min_time self))
                 (mk (toa_ref_of self energy) (dt self) (min_time self) (max_time self - min_time self))")
      case (Inl e)
      then have "e = ValueError"
        by (auto simp: compute_covariance_def np_cov_def Let_def split: if_splits sum.splits)
      then show ?thesis using Inl Inr eq by (simp add: Let_def)
    next
      case c: (Inr c)
      show ?thesis using c Inr eq Cons.IH by (simp add: Let_def)
    qed
  qed
qed

lemma construct_energy_covar_no_assert:
  assumes "\<And>a b d ts tg. length (time (mk a d ts tg)) = length (time (mk b d ts tg))"
  shows "construct_energy_covar mk self \<noteq> Inl AssertionError"
proof -
  have "covar_loop mk keys s \<noteq> Inl AssertionError" for keys s
    by (rule covar_loop_no_assert) (rule assms)
  then show ?thesis
    by (auto simp: construct_energy_covar_def Let_def np_vstack_def split: sum.splits option.splits if_splits)
qed

lemma update_fine_no_error:
  "\<exists>s. update_energy_events (self\<lparr>energy_events := fine_cells m T\<rparr>) = Inr s"
  by (cases "band_interest self") (simp_all add: update_energy_events_def merge_bands_eq distinct_fine_cells)

lemma make_lightcurve_length:
  "length (time (make_lightcurve a d ts tg)) = length (time (make_lightcurve b d ts tg))"
  by (simp add: make_lightcurve_def Let_def)

section \<open>Bands that share a midpoint, and the spectrum when bands are supplied\<close>

lemma fst_fold_band_step:
  "fst (fold band_step bs (ee, acc)) = filter (\<lambda>kv. first_band bs (fst kv) = None) ee"
proof (induction bs arbitrary: ee acc)
  case Nil
  show ?case by (simp add: first_band_def)
next
  case (Cons b bs)
  have step: "band_step b (ee, acc) =
      (filter (\<lambda>kv. \<not> in_band b (fst kv)) ee, dict_set (mid_bin b) (cells_in (in_band b) ee) acc)"
    by (simp add: band_step_def)
  have "fst (fold band_step (b # bs) (ee, acc))
          = filter (\<lambda>kv. first_band bs (fst kv) = None) (filter (\<lambda>kv. \<not> in_band b (fst kv)) ee)"
    by (simp only: fold_Cons comp_apply step Cons.IH)
  also have "\<dots> = filter (\<lambda>kv. first_band (b # bs) (fst kv) = None) ee"
    by (auto simp: first_band_def intro: filter_cong)
  finally show ?case .
qed

lemma distinct_fold_band_step:
  "distinct (dict_keys (fst s)) \<Longrightarrow> distinct (dict_keys (fst (fold band_step bs s)))"
  by (induction bs arbitrary: s) (simp_all add: distinct_band_step)

lemma map_of_snd_band_step:
  "map_of (snd (band_step b s)) = (map_of (snd s))(mid_bin b \<mapsto> cells_in (in_band b) (fst s))"
  by (simp add: band_step_def map_of_dict_set)

lemma map_of_fold_band_step_other:
  "m \<notin> mid_bin ` set bs \<Longrightarrow> map_of (snd (fold band_step bs s)) m = map_of (snd s) m"
  by (induction bs arbitrary: s) (simp_all add: map_of_snd_band_step)

lemma map_of_after_band:
  "map_of (snd (fold band_step (bs @ [b]) (ee, acc))) (mid_bin b)
     = Some (cells_in (\<lambda>k. in_band b k \<and> first_band bs k = None) ee)"
proof -
  obtain live acc' where s: "fold band_step bs (ee, acc) = (live, acc')"
    by (cases "fold band_step bs (ee, acc)")
  have "live = filter (\<lambda>kv. first_band bs (fst kv) = None) ee"
    using fst_fold_band_step[of bs ee acc] by (simp add: s)
  then show ?thesis
    by (simp add: s map_of_snd_band_step cells_in_filter[of _ "\<lambda>k. first_band bs k = None"])
qed

lemma first_band_None_insert:
  "first_band (pre @ b1 # mid) k = None \<longleftrightarrow> \<not> in_band b1 k \<and> first_band (pre @ mid) k = None"
  by (induction pre) (auto simp: first_band_def)

lemma distinct_keys_snd_band_step:
  "distinct (dict_keys (snd s)) \<Longrightarrow> distinct (dict_keys (snd (band_step b s)))"
  by (simp add: band_step_def dict_keys_dict_set)

lemma distinct_keys_snd_fold:
  "distinct (dict_keys (snd s)) \<Longrightarrow> distinct (dict_keys (snd (fold band_step bs s)))"
  by (induction bs arbitrary: s) (simp_all add: distinct_keys_snd_band_step)

lemma keys_snd_fold:
  "set (dict_keys (snd (fold band_step bs s))) = set (dict_keys (snd s)) \<union> mid_bin ` set bs"
  by (induction bs arbitrary: s) (auto simp: band_step_def dict_keys_dict_set)

lemma map_of_dict_update:
  "distinct (map fst other) \<Longrightarrow> map_of (dict_update d other) = map_of d ++ map_of other"
proof (induction other arbitrary: d)
  case Nil
  show ?case by (simp add: dict_update_def)
next
  case (Cons kv other)
  have "map_of (dict_update d (kv # other)) = map_of (dict_update (dict_set (fst kv) (snd kv) d) other)"
    by (simp add: dict_update_def)
  also have "\<dots> = (map_of d)(fst kv \<mapsto> snd kv) ++ map_of other"
    using Cons by (simp add: map_of_dict_set)
  also have "\<dots> = map_of d ++ map_of (kv # other)"
  proof -
    have "map_of other (fst kv) = None"
      using Cons.prems by (simp add: map_of_eq_None_iff)
    then show ?thesis
      by (cases kv) (auto simp: fun_eq_iff map_add_def split: option.splits)
  qed
  finally show ?case .
qed

lemma distinct_dict_update:
  "distinct (dict_keys d) \<Longrightarrow> distinct (dict_keys (dict_update d other))"
  unfolding dict_update_def
  by (induction other arbitrary: d) (simp_all add: dict_keys_dict_set)

lemma filter_key_distinct:
  "distinct (map fst xs) \<Longrightarrow> map_of xs m = Some v \<Longrightarrow> filter (\<lambda>kv. fst kv = m) xs = [(m, v)]"
proof (induction xs)
  case Nil
  then show ?case by simp
next
  case (Cons kv xs)
  show ?case
  proof (cases "fst kv = m")
    case True
    then have "m \<notin> fst ` set xs" using Cons.prems(1) by auto
    then have "filter (\<lambda>kv. fst kv = m) xs = []"
      by (auto simp: filter_empty_conv)
    then show ?thesis using True Cons.prems(2) by (cases kv) simp
  next
    case False
    then show ?thesis using Cons by (cases kv) auto
  qed
qed

lemma compute_covariance_eq:
  assumes "length (counts lc1) = length (counts lc2)"
  shows "compute_covariance lc1 lc2 = Inr (sample_covariance (counts lc1) (counts lc2))"
proof -
  let ?x = "counts lc1" and ?y = "counts lc2"
  have "dot (map (\<lambda>v. v - mean ?x) ?x) (map (\<lambda>v. v - mean ?y) ?y)
          = (\<Sum>i<length ?x. (?x ! i - mean ?x) * (?y ! i - mean ?y))"
    using assms dot_sum[of "map (\<lambda>v. v - mean ?x) ?x" "map (\<lambda>v. v - mean ?y) ?y"] by simp
  then show ?thesis
    using assms by (simp add: compute_covariance_def np_cov_def sample_covariance_def Let_def)
qed

lemma toa_ref_of_energy_covar:
  "toa_ref_of (s\<lparr>energy_covar := ec\<rparr>) = toa_ref_of s"
  by (simp add: toa_ref_of_def fun_eq_iff)

lemma band_covariance_energy_covar:
  "band_covariance mk (s\<lparr>energy_covar := ec\<rparr>) = band_covariance mk s"
  by (simp add: band_covariance_def fun_eq_iff toa_ref_of_energy_covar)

text \<open>The loop over the keys in closed form, for a builder that keeps its contract.\<close>

lemma covar_loop_eq:
  assumes t: "\<And>a b d ts tg. length (time (mk a d ts tg)) = length (time (mk b d ts tg))"
      and c: "\<And>a b d ts tg. length (counts (mk a d ts tg)) = length (counts (mk b d ts tg))"
      and k: "set keys \<subseteq> fst ` set (energy_events s)"
  shows "covar_loop mk keys (s\<lparr>energy_covar := ec\<rparr>) =
           Inr (s\<lparr>energy_covar :=
                   fold (\<lambda>k d. dict_set k (Some (band_covariance mk s (the (map_of (energy_events s) k)) k)) d)
                     keys ec\<rparr>)"
  using k
proof (induction keys arbitrary: ec)
  case Nil
  show ?case by simp
next
  case (Cons energy rest)
  let ?d = "dt s" and ?ts = "min_time s" and ?tg = "max_time s - min_time s"
  obtain toa where toa: "map_of (energy_events s) energy = Some toa"
    using Cons.prems by (cases "map_of (energy_events s) energy") (auto simp: map_of_eq_None_iff)
  have g: "dict_get (energy_events s) energy = Inr toa"
    by (simp add: dict_get_def toa)
  have l: "length (time (mk toa ?d ?ts ?tg)) = length (time (mk (toa_ref_of s energy) ?d ?ts ?tg))"
    by (rule t)
  have cc: "compute_covariance (mk toa ?d ?ts ?tg) (mk (toa_ref_of s energy) ?d ?ts ?tg)
              = Inr (band_covariance mk s toa energy)"
    unfolding band_covariance_def by (rule compute_covariance_eq) (rule c)
  have r: "set rest \<subseteq> fst ` set (energy_events s)"
    using Cons.prems by simp
  show ?case
    using Cons.IH[OF r]
    by (simp add: g l cc toa Let_def toa_ref_of_energy_covar band_covariance_energy_covar)
qed

lemma dict_set_None_map:
  "dict_set m None (map (\<lambda>k. (k, None)) ms) = map (\<lambda>k. (k, None)) (if m \<in> set ms then ms else ms @ [m])"
  by (induction ms) auto

lemma fold_dict_set_None:
  "distinct ms0 \<Longrightarrow>
   \<exists>ms. distinct ms \<and> set ms = set ms0 \<union> f ` set bs \<and>
        fold (\<lambda>b d. dict_set (f b) None d) bs (map (\<lambda>k. (k, None :: 'v option)) ms0) = map (\<lambda>k. (k, None :: 'v option)) ms"
proof (induction bs arbitrary: ms0)
  case Nil
  show ?case
  proof (intro exI[of _ ms0] conjI)
    show "distinct ms0" by (rule Nil)
    show "set ms0 = set ms0 \<union> f ` set []" by simp
    show "fold (\<lambda>b d. dict_set (f b) None d) [] (map (\<lambda>k. (k, None :: 'v option)) ms0) = map (\<lambda>k. (k, None :: 'v option)) ms0"
      by simp
  qed
next
  case (Cons b bs)
  define ms1 where "ms1 = (if f b \<in> set ms0 then ms0 else ms0 @ [f b])"
  have d1: "distinct ms1" using Cons.prems by (simp add: ms1_def)
  have s1: "set ms1 = insert (f b) (set ms0)" by (auto simp: ms1_def)
  from Cons.IH[OF d1] obtain ms where ms: "distinct ms \<and> set ms = set ms1 \<union> f ` set bs \<and>
    fold (\<lambda>b d. dict_set (f b) None d) bs (map (\<lambda>k. (k, None :: 'v option)) ms1) = map (\<lambda>k. (k, None :: 'v option)) ms" ..
  have st: "dict_set (f b) None (map (\<lambda>k. (k, None :: 'v option)) ms0) = map (\<lambda>k. (k, None :: 'v option)) ms1"
    unfolding ms1_def by (rule dict_set_None_map)
  show ?case
  proof (intro exI[of _ ms] conjI)
    show "distinct ms" using ms by (rule conjunct1)
    show "set ms = set ms0 \<union> f ` set (b # bs)"
      using ms s1 by auto
    show "fold (\<lambda>b d. dict_set (f b) None d) (b # bs) (map (\<lambda>k. (k, None :: 'v option)) ms0) = map (\<lambda>k. (k, None :: 'v option)) ms"
      using ms by (simp only: fold_Cons comp_apply st)
  qed
qed

lemma those_map_Some: "those (map (\<lambda>x. Some (h x)) xs) = Some (map h xs)"
  by (induction xs) simp_all

lemma np_vstack_filled:
  "ms \<noteq> [] \<Longrightarrow> np_vstack (map (\<lambda>k. (k, Some (g k))) ms) = Inr (map (\<lambda>k. (k, g k)) ms)"
  using those_map_Some[of "\<lambda>k. (k, g k)" ms]
  by (simp add: np_vstack_def comp_def)

lemma fold_fill:
  "distinct ms \<Longrightarrow>
   fold (\<lambda>k d. dict_set k (Some (g k)) d) ms (map (\<lambda>k. (k, None)) ms) = map (\<lambda>k. (k, Some (g k))) ms"
  using fold_dict_set_existing[of "[]" "map (\<lambda>k. (k, None)) ms" "\<lambda>k. Some (g k)"]
  by (simp add: comp_def)

text \<open>The assembler in closed form when bands are supplied.\<close>

lemma construct_energy_covar_bands:
  assumes t: "\<And>a b d ts tg. length (time (mk a d ts tg)) = length (time (mk b d ts tg))"
      and c: "\<And>a b d ts tg. length (counts (mk a d ts tg)) = length (counts (mk b d ts tg))"
      and b: "band_interest s = Some bands" "bands \<noteq> []"
      and k: "mid_bin ` set bands \<subseteq> fst ` set (energy_events s)"
  shows "\<exists>ms. distinct ms \<and> set ms = mid_bin ` set bands \<and>
           construct_energy_covar mk s =
             Inr (s\<lparr>energy_covar := map (\<lambda>k. (k, Some (band_covariance mk s (the (map_of (energy_events s) k)) k))) ms,
                    covar := map (\<lambda>k. (k, band_covariance mk s (the (map_of (energy_events s) k)) k)) ms\<rparr>)"
proof -
  let ?g = "\<lambda>k. band_covariance mk s (the (map_of (energy_events s) k)) k"
  obtain ms where ms: "distinct ms" "set ms = mid_bin ` set bands"
    "fold (\<lambda>b d. dict_set (mid_bin b) None d) bands [] = map (\<lambda>k. (k, None :: npfloat option)) ms"
    using fold_dict_set_None[of "[]" mid_bin bands] by auto
  have ne: "ms \<noteq> []" using ms(2) b(2) by auto
  have i: "init_energy_covar s = s\<lparr>energy_covar := map (\<lambda>k. (k, None)) ms\<rparr>"
    using ms(3) by (simp add: init_energy_covar_def b(1) mid_bin_def)
  have ks: "set ms \<subseteq> fst ` set (energy_events s)"
    using k ms(2) by simp
  have "covar_loop mk ms (s\<lparr>energy_covar := map (\<lambda>k. (k, None)) ms\<rparr>) =
          Inr (s\<lparr>energy_covar := map (\<lambda>k. (k, Some (?g k))) ms\<rparr>)"
    using covar_loop_eq[of mk ms s "map (\<lambda>k. (k, None)) ms", OF t c ks] fold_fill[OF ms(1), of ?g]
    by simp
  then have "construct_energy_covar mk s =
             Inr (s\<lparr>energy_covar := map (\<lambda>k. (k, Some (?g k))) ms, covar := map (\<lambda>k. (k, ?g k)) ms\<rparr>)"
    by (simp add: construct_energy_covar_def i dict_keys_def comp_def np_vstack_filled[OF ne])
  then show ?thesis using ms(1,2) by blast
qed

lemma set_dict_keys_dict_set: "set (dict_keys (dict_set k v d)) = insert k (set (dict_keys d))"
  by (auto simp: dict_keys_dict_set)

lemma dict_keys_Cons: "dict_keys (kv # d) = fst kv # dict_keys d"
  by (simp add: dict_keys_def)

lemma dict_keys_Nil: "dict_keys [] = []"
  by (simp add: dict_keys_def)

lemma keys_dict_update:
  "set (dict_keys (dict_update d other)) = set (dict_keys d) \<union> set (dict_keys other)"
  unfolding dict_update_def
  by (induction other arbitrary: d) (auto simp: set_dict_keys_dict_set dict_keys_Cons dict_keys_Nil)

lemma filter_key_map:
  "distinct ms \<Longrightarrow> m \<in> set ms \<Longrightarrow> filter (\<lambda>r. fst r = m) (map (\<lambda>k. (k, g k)) ms) = [(m, g m)]"
  by (rule filter_key_distinct) (simp_all add: comp_def map_of_map_restrict)

lemma make_lightcurve_counts_length:
  "length (counts (make_lightcurve a d ts tg)) = length (counts (make_lightcurve b d ts tg))"
  by (simp add: make_lightcurve_def Let_def)

section \<open>Evaluation of closed examples\<close>

lemmas eval_defs = Covariancespectrum_def run_pipeline_def construct_energy_events_def
  update_energy_events_def construct_energy_covar_def init_energy_covar_def
  np_unique_def np_diff_def np_min_def np_max_def cell_toa_def masked_def dict_keys_def
  dict_get_def dict_del_def dict_update_def merge_band_def
  toa_ref_of_def collect_toa_ref_def compute_covariance_def np_cov_def np_vstack_def
  mean_def dot_def make_lightcurve_def Let_def

section \<open>The properties\<close>

subsection \<open>The band partitioner\<close>

text \<open>
  C1. Partition completeness asks that every event of an accepted input is a member of
  exactly one cell. The loop closes a cell on the right only when its key equals
  \<open>max_energy - least_count / 2\<close>, which the last key \<open>unique[n-2] + least_count / 2\<close> does
  only when the last gap between unique energies is the least one. For the three events
  with energies 5, 7 and 10 the constructor succeeds, the cells are \<open>6 \<mapsto> [0]\<close> and
  \<open>8 \<mapsto> [1]\<close>, and the event at time 2 (energy 10) is a member of no cell.
\<close>

theorem partition_drops_maximum_energy_event:
  "map_sum id energy_events
     (Covariancespectrum make_lightcurve [(0, 5), (1, 7), (2, 10)] 1 None None)
   = Inr [(6, [0]), (8, [1])]"
  by (simp add: eval_defs)

text \<open>
  C2. For the unique energies 5, 7 and 10 (least count 2) the partitioner makes the two
  keys 6 and 8, but the cell keyed 8 is the half-open \<open>[7, 9)\<close>: the test for the last
  bin compares the key with \<open>10 - 1 = 9\<close>, so the closed branch is never taken and the
  two events of energy 10 (times 3 and 4) are left out.
\<close>

theorem closing_cell_misses_maximum_energy:
  "map_sum id energy_events
     (construct_energy_events
        (initial_object [(1, 5), (2, 7), (3, 10), (4, 10)] 1 None None)
        ([1, 2, 3, 4], [5, 7, 10, 10]))
   = Inr [(6, [1]), (8, [2])]"
  by (simp add: eval_defs initial_object_def)

text \<open>
  C7. With fewer than two distinct energies the construction fails, but there is no guard
  and no dedicated exception: the failure is the \<^verbatim>\<open>ValueError\<close> of a NumPy reduction over
  an empty array (the minimum of no differences, or the minimum of no energies when there
  is no event at all), unless the shape assertions fail first.
  First the failure of the statement as written, at two events of energy 1.
\<close>

theorem single_energy_raises_ValueError:
  "Covariancespectrum make_lightcurve [(0, 1), (1, 1)] 1 None None = Inl ValueError
   \<and> error_name ValueError \<noteq> ''InsufficientDataError''"
  by (simp add: eval_defs)

text \<open>
  C7, as amended: on every input with fewer than two distinct energy values the
  constructor raises; the exception is \<^verbatim>\<open>ValueError\<close>, except that a non-empty input with
  a malformed band argument raises the \<^verbatim>\<open>AssertionError\<close> of the validation first.
\<close>

theorem few_energies_fail_with_ValueError:
  assumes "card (set (map snd events)) < 2"
  shows "Covariancespectrum mk events bw bands ref =
           Inl (if events \<noteq> [] \<and> \<not> (ref_ok ref \<and> bands_ok bands) then AssertionError else ValueError)"
proof (cases "events = []")
  case True
  then show ?thesis by (simp add: Covariancespectrum_empty)
next
  case False
  have "event_list (initial_object events bw bands ref) = events"
    by (simp add: initial_object_def)
  then have "run_pipeline mk (initial_object events bw bands ref) = Inl ValueError"
    using assms by (intro run_pipeline_few) simp
  then show ?thesis
    using False by (simp add: Covariancespectrum_eq)
qed

theorem few_energies_fail_with_ValueError_witness:
  "card (set (map snd [(0, 3), (2, 3), (5, 3 :: real)])) < 2
   \<and> Covariancespectrum make_lightcurve [(0, 3), (2, 3), (5, 3)] 1 (Some [PySeq [1, 2]]) None
       = Inl ValueError"
proof -
  have h: "card (set (map snd [(0, 3), (2, 3), (5, 3 :: real)])) < 2"
    by simp
  show ?thesis
    using few_energies_fail_with_ValueError[OF h, of make_lightcurve 1 "Some [PySeq [1, 2]]" None]
    by (simp add: ref_ok_def bands_ok_def)
qed

subsection \<open>The constructor's validation\<close>

text \<open>
  C8. A malformed band argument is rejected before the partitioning, but by a failed
  \<^verbatim>\<open>assert\<close>: the exception is \<^verbatim>\<open>AssertionError\<close>. The failure of the statement as
  written, at a reference band of one element.
\<close>

theorem bad_ref_band_raises_AssertionError:
  "Covariancespectrum make_lightcurve [(0, 1), (1, 2)] 1 None (Some (PySeq [1])) = Inl AssertionError
   \<and> error_name AssertionError \<noteq> ''InvalidInputError''"
  by (simp add: Covariancespectrum_def np_min_def np_max_def)

text \<open>
  C8, as amended: for a non-empty event array, if the reference band is supplied and is
  not a list or tuple of length 2, or some element of the bands of interest is not, the
  constructor raises \<^verbatim>\<open>AssertionError\<close> whatever the events are, so before any
  partitioning; otherwise the validation passes and the result is the result of the three
  steps run on the object that holds the arguments.
\<close>

theorem shape_validation_before_partitioning:
  assumes "events \<noteq> []"
  shows "Covariancespectrum mk events bw bands ref =
           (if ref_ok ref \<and> bands_ok bands then run_pipeline mk (initial_object events bw bands ref)
            else Inl AssertionError)"
  using assms by (rule Covariancespectrum_eq)

theorem shape_validation_before_partitioning_witness:
  "[(0, 1), (1, 1 :: real)] \<noteq> []
   \<and> Covariancespectrum make_lightcurve [(0, 1), (1, 1)] 1 (Some [PySeq [1, 2], PyOther]) None
       = Inl AssertionError
   \<and> Covariancespectrum make_lightcurve [(0, 1), (1, 1)] 1 (Some [PySeq [1, 2]]) (Some (PySeq [0, 3]))
       = run_pipeline make_lightcurve
           (initial_object [(0, 1), (1, 1)] 1 (Some [PySeq [1, 2]]) (Some (PySeq [0, 3])))"
proof -
  have h: "[(0, 1), (1, 1 :: real)] \<noteq> []"
    by simp
  show ?thesis
    using shape_validation_before_partitioning[OF h, of make_lightcurve 1 "Some [PySeq [1, 2], PyOther]" None]
      shape_validation_before_partitioning[OF h, of make_lightcurve 1 "Some [PySeq [1, 2]]" "Some (PySeq [0, 3])"]
    by (simp add: ref_ok_def bands_ok_def)
qed

subsection \<open>The band merger\<close>

text \<open>
  C3. Overlapping bands do not count a cell twice: the cell is deleted from the live
  mapping when the first band takes it. With the cells keyed 3/2, 5/2 and 7/2 and the bands
  (1, 3) and (2, 4), the key 5/2 lies in both bands, and its event (time 1/2) ends in the
  list of the first band only.
\<close>

theorem overlap_not_double_counted:
  "map_sum id energy_events (update_energy_events (three_cells [(1, 3), (2, 4)]))
     = Inr [(2, [0, 1/2]), (3, [1, 3/2, 2])]
   \<and> in_band (1, 3) (5/2) \<and> in_band (2, 4) (5/2)"
  by (simp add: eval_defs three_cells_def in_band_def)

text \<open>
  C3, as amended: when the supplied bands (with pairwise distinct midpoints) overlap, a
  cell whose key lies in the overlap is merged into the first supplied band that contains
  the key, and into no other: the list of each band is the concatenation of the cells
  whose first containing band it is, and the cells that no band contains stay in the
  mapping.
\<close>

theorem overlap_cell_goes_to_first_band:
  assumes "band_interest self = Some bands"
      and "distinct (dict_keys (energy_events self))"
      and "distinct (map mid_bin bands)"
  shows "update_energy_events self =
           Inr (self\<lparr>energy_events :=
                 dict_update (filter (\<lambda>kv. first_band bands (fst kv) = None) (energy_events self))
                   (map (\<lambda>b. (mid_bin b, cells_in (\<lambda>k. first_band bands k = Some b) (energy_events self))) bands)\<rparr>)"
  using assms fold_band_step_distinct[of bands "[]" "energy_events self"]
  by (simp add: update_energy_events_def merge_bands_eq)

theorem overlap_cell_goes_to_first_band_witness:
  "band_interest (three_cells [(1, 3), (2, 4)]) = Some [(1, 3), (2, 4)]
   \<and> distinct (dict_keys (energy_events (three_cells [(1, 3), (2, 4)])))
   \<and> distinct (map mid_bin [(1, 3), (2, 4)])
   \<and> update_energy_events (three_cells [(1, 3), (2, 4)]) =
       Inr ((three_cells [(1, 3), (2, 4)])\<lparr>energy_events := [(2, [0, 1/2]), (3, [1, 3/2, 2])]\<rparr>)"
proof -
  have h1: "band_interest (three_cells [(1, 3), (2, 4)]) = Some [(1, 3), (2, 4)]"
    by (simp add: three_cells_def)
  have h2: "distinct (dict_keys (energy_events (three_cells [(1, 3), (2, 4)])))"
    by (simp add: three_cells_def dict_keys_def)
  have h3: "distinct (map mid_bin [(1, 3), (2, 4)])"
    by (simp add: mid_bin_def)
  have v: "dict_update
             (filter (\<lambda>kv. first_band [(1, 3), (2, 4)] (fst kv) = None)
                (energy_events (three_cells [(1, 3), (2, 4)])))
             (map (\<lambda>b. (mid_bin b, cells_in (\<lambda>k. first_band [(1, 3), (2, 4)] k = Some b)
                                      (energy_events (three_cells [(1, 3), (2, 4)]))))
                [(1, 3), (2, 4)])
           = [(2, [0, 1/2]), (3, [1, 3/2, 2])]"
    by (simp add: three_cells_def first_band_def in_band_def mid_bin_def cells_in_def dict_update_def)
  show ?thesis
    using overlap_cell_goes_to_first_band[OF h1 h2 h3] h1 h2 h3 by (simp only: v simp_thms)
qed

text \<open>
  C9. With the single band \<open>(min_energy, max_energy)\<close> and at least two distinct energies,
  every key of the partition lies inside the band, so the merged mapping has exactly one
  entry, keyed at the midpoint of the band, and its list is the concatenation of the
  lists of all the cells of the partition.
\<close>

theorem single_full_band_merges_all_cells:
  assumes "2 \<le> card (set (snd T))"
      and "min_energy self = Min (set (snd T))"
      and "max_energy self = Max (set (snd T))"
      and "band_interest self = Some [(min_energy self, max_energy self)]"
  shows "\<exists>self1. construct_energy_events self T = Inr self1 \<and>
           update_energy_events self1 =
             Inr (self1\<lparr>energy_events :=
                   [((min_energy self + max_energy self) / 2, concat (map snd (energy_events self1)))]\<rparr>)"
proof -
  let ?cells = "fine_cells (max_energy self) T"
  let ?b = "(min_energy self, max_energy self)"
  have c: "construct_energy_events self T = Inr (self\<lparr>energy_events := ?cells\<rparr>)"
    using assms(1) by (simp add: construct_energy_events_eq)
  have all_in: "filter (\<lambda>kv. \<not> in_band ?b (fst kv)) ?cells = []"
    using fine_cells_in_range[OF assms(1)] by (simp add: assms(2,3) filter_empty_conv)
  have all_in': "filter (\<lambda>kv. in_band ?b (fst kv)) ?cells = ?cells"
    using fine_cells_in_range[OF assms(1)] by (simp add: assms(2,3) filter_id_conv)
  have "merge_bands [?b] (?cells, []) = Inr (fold band_step [?b] (?cells, []))"
    by (rule merge_bands_eq) (simp add: distinct_fine_cells)
  then have "merge_bands [?b] (?cells, []) = Inr ([], [(mid_bin ?b, concat (map snd ?cells))])"
    by (simp add: band_step_def all_in all_in' cells_in_def)
  then have "update_energy_events (self\<lparr>energy_events := ?cells\<rparr>) =
      Inr (self\<lparr>energy_events := [((min_energy self + max_energy self) / 2, concat (map snd ?cells))]\<rparr>)"
    by (simp add: update_energy_events_def assms(4) dict_update_empty mid_bin_def)
  then show ?thesis using c by simp
qed

theorem single_full_band_merges_all_cells_witness:
  "\<exists>self1.
     construct_energy_events (initial_object example_events 1 (Some [PySeq [1, 5]]) None)
        ([0, 1/2, 1, 3/2, 2], [1, 1, 3, 3, 5]) = Inr self1 \<and>
     update_energy_events self1 = Inr (self1\<lparr>energy_events := [(3, concat (map snd (energy_events self1)))]\<rparr>)"
proof -
  let ?T = "([0, 1/2, 1, 3/2, 2], [1, 1, 3, 3, 5]) :: real list \<times> real list"
  let ?self = "initial_object example_events 1 (Some [PySeq [1, 5]]) None"
  have h1: "2 \<le> card (set (snd ?T))"
    by simp
  have h2: "min_energy ?self = Min (set (snd ?T))"
    by (simp add: initial_object_def example_events_def)
  have h3: "max_energy ?self = Max (set (snd ?T))"
    by (simp add: initial_object_def example_events_def)
  have h4: "band_interest ?self = Some [(min_energy ?self, max_energy ?self)]"
    by (simp add: initial_object_def example_events_def)
  have m: "(min_energy ?self + max_energy ?self) / 2 = 3"
    by (simp add: initial_object_def example_events_def)
  show ?thesis
    using single_full_band_merges_all_cells[OF h1 h2 h3 h4] by (simp only: m)
qed

text \<open>
  C10. Whenever two of the supplied bands, \<open>b1\<close> before \<open>b2\<close>, have the same midpoint
  (with any bands before, between and after them), processing \<open>b2\<close> resets the list stored
  under the midpoint: right after \<open>b2\<close> the shared key holds exactly the cells \<open>b2\<close>
  merges, none of which lies in \<open>b1\<close>, so what \<open>b1\<close> had merged under the key is gone (its
  cells were deleted from the live mapping when it took them). When no band after \<open>b2\<close> has
  that midpoint, the merged mapping has exactly one entry for the midpoint, holding those
  cells, and, for a series builder that keeps its length contract, the construction of the
  spectrum succeeds and the spectrum has exactly one row for the midpoint, the covariance
  computed from those cells.
\<close>

theorem same_midpoint_later_band_wins:
  assumes b: "band_interest self = Some (pre @ b1 # mid @ b2 # post)"
      and same: "mid_bin b1 = mid_bin b2"
      and keys: "distinct (dict_keys (energy_events self))"
      and t: "\<And>a b d ts tg. length (time (mk a d ts tg)) = length (time (mk b d ts tg))"
      and c: "\<And>a b d ts tg. length (counts (mk a d ts tg)) = length (counts (mk b d ts tg))"
  shows "(\<exists>s. merge_bands (pre @ b1 # mid @ [b2]) (energy_events self, []) = Inr s
            \<and> merge_bands (pre @ b1 # mid @ b2 # post) (energy_events self, []) = merge_bands post s
            \<and> dict_get (snd s) (mid_bin b2) = Inr (later_band_cells (pre @ mid) b1 b2 (energy_events self)))
       \<and> (mid_bin b2 \<notin> mid_bin ` set post \<longrightarrow>
           (\<exists>self1 self2.
               update_energy_events self = Inr self1
             \<and> filter (\<lambda>kv. fst kv = mid_bin b2) (energy_events self1)
                 = [(mid_bin b2, later_band_cells (pre @ mid) b1 b2 (energy_events self))]
             \<and> construct_energy_covar mk self1 = Inr self2
             \<and> filter (\<lambda>r. fst r = mid_bin b2) (covar self2)
                 = [(mid_bin b2,
                     band_covariance mk self1
                       (later_band_cells (pre @ mid) b1 b2 (energy_events self)) (mid_bin b2))]))"
proof -
  let ?ee = "energy_events self"
  let ?m = "mid_bin b2"
  let ?later = "later_band_cells (pre @ mid) b1 b2 ?ee"
  let ?bs = "pre @ b1 # mid"
  let ?bands = "pre @ b1 # mid @ b2 # post"
  define s where "s = fold band_step (?bs @ [b2]) (?ee, [])"
  define f where "f = fold band_step post s"
  have d: "distinct (dict_keys (fst (?ee, [] :: real list pydict)))"
    using keys by simp
  have ds: "distinct (dict_keys (fst s))"
    unfolding s_def by (rule distinct_fold_band_step) (rule d)
  have m1: "merge_bands (pre @ b1 # mid @ [b2]) (?ee, []) = Inr s"
    using merge_bands_eq[OF d, of "?bs @ [b2]"] by (simp add: s_def)
  have ff: "fold band_step ?bands (?ee, []) = f"
    by (simp add: f_def s_def)
  have m2: "merge_bands ?bands (?ee, []) = Inr f"
    using merge_bands_eq[OF d, of ?bands] by (simp only: ff)
  have m3: "merge_bands post s = Inr f"
    unfolding f_def by (rule merge_bands_eq) (rule ds)
  have pred: "(\<lambda>k. in_band b2 k \<and> first_band ?bs k = None)
                = (\<lambda>k. in_band b2 k \<and> \<not> in_band b1 k \<and> first_band (pre @ mid) k = None)"
    by (simp add: fun_eq_iff first_band_None_insert)
  have ms: "map_of (snd s) ?m = Some ?later"
    unfolding s_def later_band_cells_def by (simp only: map_of_after_band pred)
  have g1: "dict_get (snd s) ?m = Inr ?later"
    by (simp add: dict_get_def ms)
  have part1: "\<exists>s. merge_bands (pre @ b1 # mid @ [b2]) (?ee, []) = Inr s
            \<and> merge_bands ?bands (?ee, []) = merge_bands post s
            \<and> dict_get (snd s) ?m = Inr ?later"
    using m1 m2 m3 g1 by (intro exI[of _ s]) simp
  have part2: "\<exists>self1 self2.
               update_energy_events self = Inr self1
             \<and> filter (\<lambda>kv. fst kv = ?m) (energy_events self1) = [(?m, ?later)]
             \<and> construct_energy_covar mk self1 = Inr self2
             \<and> filter (\<lambda>r. fst r = ?m) (covar self2) = [(?m, band_covariance mk self1 ?later ?m)]"
    if last: "?m \<notin> mid_bin ` set post"
  proof -
    define final where "final = dict_update (fst f) (snd f)"
    define self1 where "self1 = self\<lparr>energy_events := final\<rparr>"
    have u: "update_energy_events self = Inr self1"
      by (simp add: update_energy_events_def b m2 self1_def final_def)
    have mf: "map_of (snd f) ?m = Some ?later"
      unfolding f_def using map_of_fold_band_step_other[OF last, of s] ms by simp
    have dsf: "distinct (dict_keys (snd f))"
      unfolding ff[symmetric] by (rule distinct_keys_snd_fold) (simp add: dict_keys_def)
    have dff: "distinct (dict_keys (fst f))"
      unfolding f_def by (rule distinct_fold_band_step) (rule ds)
    have mfin: "map_of final ?m = Some ?later"
      using map_of_dict_update[of "snd f" "fst f"] dsf mf
      by (simp add: final_def dict_keys_def)
    have dfin: "distinct (map fst final)"
      using distinct_dict_update[OF dff, of "snd f"] by (simp add: final_def dict_keys_def)
    have e1: "filter (\<lambda>kv. fst kv = ?m) (energy_events self1) = [(?m, ?later)]"
      using filter_key_distinct[OF dfin mfin] by (simp add: self1_def)
    have kf: "set (dict_keys (snd f)) = mid_bin ` set ?bands"
      using keys_snd_fold[of ?bands "(?ee, [])"] unfolding ff by (simp add: dict_keys_def)
    have sub: "mid_bin ` set ?bands \<subseteq> fst ` set (energy_events self1)"
      using keys_dict_update[of "fst f" "snd f"] kf
      by (auto simp: self1_def final_def dict_keys_def)
    have b1': "band_interest self1 = Some ?bands"
      by (simp add: self1_def b)
    obtain ms where ms: "distinct ms" "set ms = mid_bin ` set ?bands"
      and cc: "construct_energy_covar mk self1 =
             Inr (self1\<lparr>energy_covar := map (\<lambda>k. (k, Some (band_covariance mk self1 (the (map_of (energy_events self1) k)) k))) ms,
                    covar := map (\<lambda>k. (k, band_covariance mk self1 (the (map_of (energy_events self1) k)) k)) ms\<rparr>)"
      using construct_energy_covar_bands[of mk self1 ?bands, OF t c b1' _ sub] by auto
    have inm: "?m \<in> set ms" using ms(2) by simp
    have the_m: "the (map_of (energy_events self1) ?m) = ?later"
      by (simp add: self1_def mfin)
    have e2: "filter (\<lambda>r. fst r = ?m)
                 (map (\<lambda>k. (k, band_covariance mk self1 (the (map_of (energy_events self1) k)) k)) ms)
               = [(?m, band_covariance mk self1 ?later ?m)]"
      using filter_key_map[OF ms(1) inm, of "\<lambda>k. band_covariance mk self1 (the (map_of (energy_events self1) k)) k"]
      by (simp only: the_m)
    show ?thesis
      using u e1 cc e2
      by (intro exI[of _ self1]
          exI[of _ "self1\<lparr>energy_covar := map (\<lambda>k. (k, Some (band_covariance mk self1 (the (map_of (energy_events self1) k)) k))) ms,
                    covar := map (\<lambda>k. (k, band_covariance mk self1 (the (map_of (energy_events self1) k)) k)) ms\<rparr>"])
         simp
  qed
  show ?thesis
    using part1 part2 by blast
qed

theorem same_midpoint_later_band_wins_witness:
  "(\<exists>s. merge_bands [(3, 4), (2, 3), (1, 4)] (energy_events (three_cells [(3, 4), (2, 3), (1, 4)]), []) = Inr s
       \<and> merge_bands [(3, 4), (2, 3), (1, 4)] (energy_events (three_cells [(3, 4), (2, 3), (1, 4)]), [])
           = merge_bands [] s
       \<and> dict_get (snd s) (5/2) = Inr [0])
   \<and> (\<exists>self1 self2.
         update_energy_events (three_cells [(3, 4), (2, 3), (1, 4)]) = Inr self1
       \<and> filter (\<lambda>kv. fst kv = 5/2) (energy_events self1) = [(5/2, [0])]
       \<and> construct_energy_covar make_lightcurve self1 = Inr self2
       \<and> filter (\<lambda>r. fst r = 5/2) (covar self2) = [(5/2, band_covariance make_lightcurve self1 [0] (5/2))])
   \<and> map_sum id covar
         (case update_energy_events (three_cells [(3, 4), (2, 3), (1, 4)]) of
            Inl e \<Rightarrow> Inl e
          | Inr s \<Rightarrow> construct_energy_covar make_lightcurve s)
       = Inr [(7/2, Fin (- 1)), (5/2, Fin (- 1))]"
proof -
  let ?self = "three_cells [(3, 4), (2, 3), (1, 4)]"
  have h1: "band_interest ?self = Some ([(3, 4)] @ (2, 3) # [] @ (1, 4) # [])"
    by (simp add: three_cells_def)
  have h2: "mid_bin (2, 3) = mid_bin (1, 4)"
    by (simp add: mid_bin_def)
  have h3: "distinct (dict_keys (energy_events ?self))"
    by (simp add: three_cells_def dict_keys_def)
  note T = same_midpoint_later_band_wins[of ?self "[(3, 4)]" "(2, 3)" "[]" "(1, 4)" "[]" make_lightcurve,
      OF h1 h2 h3 make_lightcurve_length make_lightcurve_counts_length]
  have l: "mid_bin (1, 4) \<notin> mid_bin ` set []"
    by simp
  have m: "mid_bin (1, 4) = 5/2"
    by (simp add: mid_bin_def)
  have v: "later_band_cells [(3, 4)] (2, 3) (1, 4) (energy_events ?self) = [0]"
    by (simp add: later_band_cells_def cells_in_def first_band_def in_band_def three_cells_def)
  have e: "map_sum id covar
         (case update_energy_events ?self of
            Inl e \<Rightarrow> Inl e
          | Inr s \<Rightarrow> construct_energy_covar make_lightcurve s)
       = Inr [(7/2, Fin (- 1)), (5/2, Fin (- 1))]"
    by (simp add: eval_defs three_cells_def numeral_2_eq_2 upt_conv_Cons)
  show ?thesis
    using T[THEN conjunct1] T[THEN conjunct2, THEN mp, OF l] e
    by (simp only: append_Cons append_Nil v m simp_thms)
qed

subsection \<open>The reference stream, the length assertion and the covariance\<close>

text \<open>
  C4. For every evaluated key, the reference stream is the ascending sort of the
  concatenated lists of the entries of the live mapping whose key lies in the reference
  range, both ends included, and differs from the evaluated key: the evaluated key's own
  list is left out also when its key is inside the range.
\<close>

theorem reference_stream_excludes_own_band:
  "toa_ref_of self energy =
     sort (concat (map snd (filter (\<lambda>kv. in_band (ref_band_interest self) (fst kv) \<and> fst kv \<noteq> energy)
                                   (energy_events self))))
   \<and> sorted (toa_ref_of self energy)"
  by (simp add: toa_ref_of_def collect_toa_ref_def collect_fold)

text \<open>
  C5. If the series builder gives series of one length to any two streams built with the
  same bin width, start and duration, the assertion that compares the lengths of a band's
  light curve and of its reference light curve never fails: both are built with the
  object's \<open>dt\<close>, \<open>min_time\<close> and \<open>max_time - min_time\<close>. Neither the assembling step nor the
  three steps together end in \<^verbatim>\<open>AssertionError\<close>.
\<close>

theorem length_assertion_never_fails:
  assumes "\<And>a b d ts tg. length (time (mk a d ts tg)) = length (time (mk b d ts tg))"
  shows "construct_energy_covar mk self \<noteq> Inl AssertionError \<and> run_pipeline mk self \<noteq> Inl AssertionError"
proof -
  have c: "construct_energy_covar mk s \<noteq> Inl AssertionError" for s
    by (rule construct_energy_covar_no_assert) (rule assms)
  let ?T = "(map fst (sort_key snd (event_list self)), map snd (sort_key snd (event_list self)))"
  obtain s where s: "update_energy_events (self\<lparr>energy_events := fine_cells (max_energy self) ?T\<rparr>) = Inr s"
    using update_fine_no_error by blast
  have "run_pipeline mk self = Inl ValueError \<or> run_pipeline mk self = construct_energy_covar mk s"
    unfolding run_pipeline_def Let_def construct_energy_events_eq
    by (simp add: s)
  then have "run_pipeline mk self \<noteq> Inl AssertionError"
    using c[of s] by auto
  then show ?thesis
    using c[of self] by simp
qed

theorem length_assertion_never_fails_witness:
  "construct_energy_covar make_lightcurve (three_cells [(1, 3), (2, 4)]) \<noteq> Inl AssertionError
   \<and> run_pipeline make_lightcurve (three_cells [(1, 3), (2, 4)]) \<noteq> Inl AssertionError"
  by (rule length_assertion_never_fails) (rule make_lightcurve_length)

text \<open>
  C6. For two count series of equal length \<open>N\<close> the covariance engine returns the
  entry \<open>[0][1]\<close> of the matrix of \<^verbatim>\<open>np.cov\<close>, which is the sample covariance of the two
  series with the divisor \<open>N - 1\<close>.
\<close>

theorem compute_covariance_is_sample_covariance:
  assumes "length (counts lc1) = length (counts lc2)"
  shows "compute_covariance lc1 lc2 = Inr (sample_covariance (counts lc1) (counts lc2))"
proof -
  let ?x = "counts lc1" and ?y = "counts lc2"
  have "dot (map (\<lambda>v. v - mean ?x) ?x) (map (\<lambda>v. v - mean ?y) ?y)
          = (\<Sum>i<length ?x. (?x ! i - mean ?x) * (?y ! i - mean ?y))"
    using assms dot_sum[of "map (\<lambda>v. v - mean ?x) ?x" "map (\<lambda>v. v - mean ?y) ?y"] by simp
  then show ?thesis
    using assms by (simp add: compute_covariance_def np_cov_def sample_covariance_def Let_def)
qed

theorem compute_covariance_is_sample_covariance_witness:
  "length (counts \<lparr>time = [0, 1, 2], counts = [1, 2, 3]\<rparr>)
     = length (counts \<lparr>time = [0, 1, 2], counts = [2, 4, 9]\<rparr>)
   \<and> compute_covariance \<lparr>time = [0, 1, 2], counts = [1, 2, 3]\<rparr> \<lparr>time = [0, 1, 2], counts = [2, 4, 9]\<rparr>
       = Inr (Fin (7/2))"
proof -
  have h: "length (counts \<lparr>time = [0, 1, 2], counts = [1, 2, 3]\<rparr>)
     = length (counts \<lparr>time = [0, 1, 2], counts = [2, 4, 9]\<rparr>)"
    by simp
  have v: "sample_covariance [1, 2, 3] [2, 4, 9] = Fin (7/2)"
    by (simp add: sample_covariance_def mean_def lessThan_nat_numeral lessThan_Suc)
  show ?thesis
    using compute_covariance_is_sample_covariance[OF h] by (simp add: v)
qed

end
